theory Spec2Isabelle
  imports Complex_Main "HOL-Library.Word" "HOL-Library.Signed_Division"
begin

section \<open>C library and std::string primitives used by MRZValidator\<close>

text \<open>
  A C++ \<open>char\<close> is one byte. The validator compares characters with ASCII constants and
  compares differences \<open>c - '0'\<close> with values in 0..9; a byte above 127 fails each of these
  tests whether \<open>char\<close> is signed or not, so the model reads a byte through \<open>of_char\<close>
  (0..255), promoted to \<open>int\<close> as C does. \<open>toupper\<close> and \<open>isdigit\<close> are those of the C
  locale.
\<close>

datatype error = OutOfRange | CvException

definition isdigit :: "char \<Rightarrow> bool" where
  "isdigit c = (48 \<le> (of_char c :: int) \<and> (of_char c :: int) \<le> 57)"

definition toupper :: "char \<Rightarrow> char" where
  "toupper c = (if 97 \<le> (of_char c :: int) \<and> (of_char c :: int) \<le> 122
                then char_of ((of_char c :: int) - 32) else c)"

text \<open>\<open>std::string::resize(n, ch)\<close>: shorter strings are filled with \<open>ch\<close>, longer ones cut.\<close>

definition resize :: "string \<Rightarrow> nat \<Rightarrow> char \<Rightarrow> string" where
  "resize s n ch = (if length s < n then s @ replicate (n - length s) ch else take n s)"

text \<open>\<open>std::string::substr(pos, len)\<close> throws \<open>std::out_of_range\<close> when \<open>pos > size()\<close>.\<close>

definition substr :: "string \<Rightarrow> nat \<Rightarrow> nat \<Rightarrow> error + string" where
  "substr s pos len = (if pos > length s then Inl OutOfRange else Inr (take len (drop pos s)))"

section \<open>MRZValidator\<close>

record ValidationScore =
  totalScore :: int
  docNumScore :: int
  dobScore :: int
  expiryScore :: int
  compositeScore :: int
  docNumValid :: bool
  dobValid :: bool
  expiryValid :: bool
  compositeValid :: bool
  correctedLine1 :: string
  correctedLine2 :: string
  correctedLine3 :: string

definition WEIGHTS :: "int list" where
  "WEIGHTS = [7, 3, 1]"

definition charToValue :: "char \<Rightarrow> int" where
  "charToValue c =
     (if of_char (CHR ''0'') \<le> (of_char c :: int) \<and> (of_char c :: int) \<le> of_char (CHR ''9'')
        then of_char c - of_char (CHR ''0'')
      else if of_char (CHR ''A'') \<le> (of_char c :: int) \<and> (of_char c :: int) \<le> of_char (CHR ''Z'')
        then of_char c - of_char (CHR ''A'') + 10
      else if c = CHR ''<'' then 0
      else 0)"

text \<open>
  The accumulator \<open>sum\<close> (\<open>sum32\<close> here) is a 32-bit \<open>int\<close>; the model keeps it as a
  word, so that the additions wrap, and reads it signed for the final \<open>%\<close>, which
  truncates towards zero.
\<close>

function calculateChecksum_loop :: "string \<Rightarrow> nat \<Rightarrow> 32 word \<Rightarrow> 32 word" where
  "calculateChecksum_loop data i sum32 =
     (if i < length data
      then calculateChecksum_loop data (i + 1)
             (sum32 + word_of_int (charToValue (data ! i) * WEIGHTS ! (i mod 3)))
      else sum32)"
  by pat_completeness auto
termination
  by (relation "measure (\<lambda>(data, i, sum32). length data - i)") auto

declare calculateChecksum_loop.simps [simp del]

definition calculateChecksum :: "string \<Rightarrow> int" where
  "calculateChecksum data = sint (calculateChecksum_loop data 0 0) smod 10"

definition validateCheckDigit :: "string \<Rightarrow> char \<Rightarrow> bool" where
  "validateCheckDigit data checkDigit =
     (if \<not> isdigit checkDigit then False
      else let expected = calculateChecksum data;
               actual = of_char checkDigit - of_char (CHR ''0'')
           in expected = actual)"

subsection \<open>correctOCRErrors\<close>

definition correctChar :: "char \<Rightarrow> char" where
  "correctChar c =
     (let upper = toupper c in
      if upper = CHR ''O'' then CHR ''0''
      else if upper = CHR ''I'' then CHR ''1''
      else if upper = CHR ''S'' then CHR ''5''
      else if upper = CHR ''B'' then CHR ''8''
      else if upper = CHR ''G'' then CHR ''6''
      else if upper = CHR ''D'' then CHR ''0''
      else if upper = CHR ''Q'' then CHR ''0''
      else if upper = CHR ''Z'' then CHR ''2''
      else if upper = CHR '' '' then CHR ''<''
      else if upper = CHR ''.'' then CHR ''<''
      else if (of_char (CHR ''A'') \<le> (of_char upper :: int) \<and> (of_char upper :: int) \<le> of_char (CHR ''Z''))
              \<or> (of_char (CHR ''0'') \<le> (of_char upper :: int) \<and> (of_char upper :: int) \<le> of_char (CHR ''9''))
              \<or> upper = CHR ''<''
        then upper
      else CHR ''<'')"

fun correctOCRErrors_loop :: "string \<Rightarrow> string \<Rightarrow> string" where
  "correctOCRErrors_loop [] corrected = corrected"
| "correctOCRErrors_loop (c # rest) corrected =
     correctOCRErrors_loop rest (corrected @ [correctChar c])"

definition correctOCRErrors :: "string \<Rightarrow> string" where
  "correctOCRErrors line = correctOCRErrors_loop line []"

subsection \<open>validateTCKN\<close>

function validateTCKN_loop :: "string \<Rightarrow> nat \<Rightarrow> int \<Rightarrow> int \<Rightarrow> int \<Rightarrow> (int \<times> int \<times> int) option" where
  "validateTCKN_loop tckn i odds evens sum10 =
     (if i < 9 then
        (if \<not> isdigit (tckn ! i) then None
         else let digit = of_char (tckn ! i) - of_char (CHR ''0'') in
              if i mod 2 = 0
              then validateTCKN_loop tckn (i + 1) (odds + digit) evens (sum10 + digit)
              else validateTCKN_loop tckn (i + 1) odds (evens + digit) (sum10 + digit))
      else Some (odds, evens, sum10))"
  by pat_completeness auto
termination
  by (relation "measure (\<lambda>(tckn, i, odds, evens, sum10). 9 - i)") auto

declare validateTCKN_loop.simps [simp del]

definition validateTCKN :: "string \<Rightarrow> bool" where
  "validateTCKN tckn =
     (if length tckn \<noteq> 11 \<or> tckn ! 0 = CHR ''0'' then False
      else case validateTCKN_loop tckn 0 0 0 0 of
             None \<Rightarrow> False
           | Some (odds, evens, sum10) \<Rightarrow>
               let digit100 = ((odds * 7) - evens) smod 10;
                   digit10 = (if digit100 < 0 then digit100 + 10 else digit100)
               in if digit10 \<noteq> of_char (tckn ! 9) - of_char (CHR ''0'') then False
                  else let sum10' = sum10 + digit10;
                           digit11 = sum10' smod 10
                       in digit11 = of_char (tckn ! 10) - of_char (CHR ''0''))"

subsection \<open>validateWithScore\<close>

definition bind_err :: "error + 'a \<Rightarrow> ('a \<Rightarrow> error + 'b) \<Rightarrow> error + 'b" where
  "bind_err m f = (case m of Inl e \<Rightarrow> Inl e | Inr v \<Rightarrow> f v)"

text \<open>The three working lines after \<open>correctOCRErrors\<close> and \<open>resize(30, '<')\<close>.\<close>

definition paddedLines :: "string \<Rightarrow> string \<Rightarrow> string \<Rightarrow> string \<times> string \<times> string" where
  "paddedLines line1Raw line2Raw line3Raw =
     (resize (correctOCRErrors line1Raw) 30 (CHR ''<''),
      resize (correctOCRErrors line2Raw) 30 (CHR ''<''),
      resize (correctOCRErrors line3Raw) 30 (CHR ''<''))"

text \<open>
  Block 1, document number. The nested TCKN test only writes a log line: its substring is
  taken (and could throw), its verdict is dropped.
\<close>

definition check_docNum :: "string \<Rightarrow> ValidationScore \<Rightarrow> error + ValidationScore" where
  "check_docNum line1 score =
     (if length line1 \<ge> 15 then
        bind_err (substr line1 5 9) (\<lambda>docNum.
          let docNumCheck = line1 ! 14;
              score1 = (if validateCheckDigit docNum docNumCheck
                        then score\<lparr>docNumValid := True, docNumScore := 15\<rparr> else score)
          in if length line1 \<ge> 27
             then bind_err (substr line1 16 11) (\<lambda>tckn. Inr score1)
             else Inr score1)
      else Inr score)"

definition check_dob :: "string \<Rightarrow> ValidationScore \<Rightarrow> error + ValidationScore" where
  "check_dob line2 score =
     (if length line2 \<ge> 7 then
        bind_err (substr line2 0 6) (\<lambda>dob.
          let dobCheck = line2 ! 6
          in Inr (if validateCheckDigit dob dobCheck
                  then score\<lparr>dobValid := True, dobScore := 15\<rparr> else score))
      else Inr score)"

definition check_expiry :: "string \<Rightarrow> ValidationScore \<Rightarrow> error + ValidationScore" where
  "check_expiry line2 score =
     (if length line2 \<ge> 15 then
        bind_err (substr line2 8 6) (\<lambda>expiry.
          let expiryCheck = line2 ! 14
          in Inr (if validateCheckDigit expiry expiryCheck
                  then score\<lparr>expiryValid := True, expiryScore := 15\<rparr> else score))
      else Inr score)"

definition check_composite :: "string \<Rightarrow> string \<Rightarrow> ValidationScore \<Rightarrow> error + ValidationScore" where
  "check_composite line1 line2 score =
     (if length line1 \<ge> 30 \<and> length line2 \<ge> 30 then
        bind_err (substr line1 5 25) (\<lambda>part1.
        bind_err (substr line2 0 7) (\<lambda>part2.
        bind_err (substr line2 8 7) (\<lambda>part3.
        bind_err (substr line2 18 11) (\<lambda>part4.
          let compositeData = (([] @ part1) @ part2) @ part3 @ part4;
              compositeCheck = line2 ! 29
          in Inr (if validateCheckDigit compositeData compositeCheck
                  then score\<lparr>compositeValid := True, compositeScore := 15\<rparr> else score)))))
      else Inr score)"

definition validateWithScore :: "string \<Rightarrow> string \<Rightarrow> string \<Rightarrow> error + ValidationScore" where
  "validateWithScore line1Raw line2Raw line3Raw =
     (let score0 = \<lparr>totalScore = 0, docNumScore = 0, dobScore = 0, expiryScore = 0,
                    compositeScore = 0, docNumValid = False, dobValid = False,
                    expiryValid = False, compositeValid = False,
                    correctedLine1 = [], correctedLine2 = [], correctedLine3 = []\<rparr>;
          score1 = score0\<lparr>correctedLine1 := correctOCRErrors line1Raw,
                          correctedLine2 := correctOCRErrors line2Raw,
                          correctedLine3 := correctOCRErrors line3Raw\<rparr>;
          (line1, line2, line3) = paddedLines line1Raw line2Raw line3Raw
      in bind_err (check_docNum line1 score1) (\<lambda>score2.
         bind_err (check_dob line2 score2) (\<lambda>score3.
         bind_err (check_expiry line2 score3) (\<lambda>score4.
         bind_err (check_composite line1 line2 score4) (\<lambda>score5.
           Inr (score5\<lparr>totalScore := docNumScore score5 + dobScore score5
                                       + expiryScore score5 + compositeScore score5\<rparr>))))))"

section \<open>The specification's reading of the validator\<close>

text \<open>
  The definitions of this section follow the words of the specification, not the code;
  the theorems below compare the two.
\<close>

text \<open>ICAO 9303 character value: a digit is itself, a letter is 10 plus its offset from A,
  the filler and anything else is 0.\<close>

definition icao_value :: "char \<Rightarrow> int" where
  "icao_value c =
     (if c \<in> set ''0123456789'' then of_char c - 48
      else if c \<in> set ''ABCDEFGHIJKLMNOPQRSTUVWXYZ'' then 10 + (of_char c - of_char (CHR ''A''))
      else 0)"

definition icao_weight :: "nat \<Rightarrow> int" where
  "icao_weight r = (if r = 0 then 7 else if r = 1 then 3 else 1)"

definition icao_sum :: "string \<Rightarrow> int" where
  "icao_sum data = (\<Sum>i<length data. icao_value (data ! i) * icao_weight (i mod 3))"

definition icao_checksum :: "string \<Rightarrow> int" where
  "icao_checksum data = icao_sum data mod 10"

text \<open>The sum of the first \<open>n\<close> weights, 7 + 3 + 1 + 7 + \<dots>\<close>

definition icao_weight_sum :: "nat \<Rightarrow> int" where
  "icao_weight_sum n = (\<Sum>i<n. icao_weight (i mod 3))"

text \<open>The half-open character range \<open>[a, b)\<close> of a line.\<close>

definition slice :: "string \<Rightarrow> nat \<Rightarrow> nat \<Rightarrow> string" where
  "slice s a b = take (b - a) (drop a s)"

text \<open>The character that prints a decimal digit.\<close>

definition digit_char :: "int \<Rightarrow> char" where
  "digit_char n = ''0123456789'' ! nat n"

text \<open>TCKN check digits; \<open>tckn_d s k\<close> is the k-th digit, counted from 1.\<close>

definition tckn_d :: "string \<Rightarrow> nat \<Rightarrow> int" where
  "tckn_d s k = of_char (s ! (k - 1)) - 48"

definition tckn_digit10 :: "string \<Rightarrow> int" where
  "tckn_digit10 s =
     ((tckn_d s 1 + tckn_d s 3 + tckn_d s 5 + tckn_d s 7 + tckn_d s 9) * 7
       - (tckn_d s 2 + tckn_d s 4 + tckn_d s 6 + tckn_d s 8)) mod 10"

definition tckn_digit11 :: "string \<Rightarrow> int" where
  "tckn_digit11 s =
     (tckn_d s 1 + tckn_d s 2 + tckn_d s 3 + tckn_d s 4 + tckn_d s 5 + tckn_d s 6
       + tckn_d s 7 + tckn_d s 8 + tckn_d s 9 + tckn_digit10 s) mod 10"

text \<open>
  Uppercasing in the specification's sense, written as the table of the 26 letters and
  not through the character codes that \<open>toupper\<close> computes with: a lowercase letter
  becomes its capital, every other character stays.
\<close>

definition upper_case :: "char \<Rightarrow> char" where
  "upper_case c =
     (case map_of (zip ''abcdefghijklmnopqrstuvwxyz'' ''ABCDEFGHIJKLMNOPQRSTUVWXYZ'') c of
        Some u \<Rightarrow> u
      | None \<Rightarrow> c)"

text \<open>The OCR substitution table and the MRZ alphabet.\<close>

definition ocr_substitutions :: "(char \<times> char) list" where
  "ocr_substitutions =
     [(CHR ''O'', CHR ''0''), (CHR ''I'', CHR ''1''), (CHR ''S'', CHR ''5''), (CHR ''B'', CHR ''8''),
      (CHR ''G'', CHR ''6''), (CHR ''D'', CHR ''0''), (CHR ''Q'', CHR ''0''), (CHR ''Z'', CHR ''2''),
      (CHR '' '', CHR ''<''), (CHR ''.'', CHR ''<'')]"

definition mrz_alphabet :: "char set" where
  "mrz_alphabet = set ''ABCDEFGHIJKLMNOPQRSTUVWXYZ0123456789<''"

definition ocr_spec_char :: "char \<Rightarrow> char" where
  "ocr_spec_char c =
     (case map_of ocr_substitutions (upper_case c) of
        Some d \<Rightarrow> d
      | None \<Rightarrow> if upper_case c \<in> mrz_alphabet then upper_case c else CHR ''<'')"

section \<open>Single-precision arithmetic\<close>

text \<open>
  The vision code multiplies and divides \<open>float\<close> values and converts them from and to
  \<open>int\<close>. A finite binary32 value is modelled by its sign, an integer mantissa and a
  binary exponent: \<open>(-1)^neg * mant * 2^expo\<close>. Every operation rounds the exact result
  to 24 significant bits, ties to even (IEEE 754 round-to-nearest), with the exponent
  floor of the subnormal range; infinities and NaN do not arise from the values the
  code computes (image dimensions, pixel counts, fractions in \<open>[0,1]\<close>) and are left out.
\<close>

record f32 =
  neg :: bool
  mant :: nat
  expo :: int

text \<open>Number of binary digits of a natural number.\<close>

fun bits :: "nat \<Rightarrow> nat" where
  "bits n = (if n = 0 then 0 else Suc (bits (n div 2)))"

declare bits.simps [simp del]

text \<open>The quotient \<open>a / b\<close> rounded to the nearest integer, ties to even.\<close>

definition rne_div :: "nat \<Rightarrow> nat \<Rightarrow> nat" where
  "rne_div a b =
     (let q = a div b; r = a mod b
      in if b < 2 * r \<or> (2 * r = b \<and> odd q) then q + 1 else q)"

text \<open>
  The binary exponent \<open>l\<close> of a positive fraction, \<open>2^l \<le> p / q < 2^(l + 1)\<close>, found
  from the digit counts of \<open>p\<close> and \<open>q\<close> and one comparison.
\<close>

definition binary_exponent :: "nat \<Rightarrow> nat \<Rightarrow> int" where
  "binary_exponent p q =
     (let l0 = int (bits p) - int (bits q)
      in if (if 0 \<le> l0 then q * 2 ^ nat l0 \<le> p else q \<le> p * 2 ^ nat (- l0))
         then l0 else l0 - 1)"

text \<open>
  The binary32 value nearest to \<open>p / q\<close> (\<open>q > 0\<close>), with sign \<open>sg\<close>: the scale \<open>s\<close>
  leaves 24 digits before the binary point, and stops at the exponent of the subnormal
  range.
\<close>

definition f32_round :: "bool \<Rightarrow> nat \<Rightarrow> nat \<Rightarrow> f32" where
  "f32_round sg p q =
     (if p = 0 then \<lparr>neg = sg, mant = 0, expo = 0\<rparr>
      else let s = min (23 - binary_exponent p q) 149
           in \<lparr>neg = sg,
               mant = (if 0 \<le> s then rne_div (p * 2 ^ nat s) q
                       else rne_div p (q * 2 ^ nat (- s))),
               expo = - s\<rparr>)"





text \<open>\<open>static_cast<int>(x)\<close> truncates towards zero.\<close>

definition f32_to_int :: "f32 \<Rightarrow> int" where
  "f32_to_int x =
     (let a = (if 0 \<le> expo x then mant x * 2 ^ nat (expo x)
               else mant x div 2 ^ nat (- expo x))
      in if neg x then - int a else int a)"



section \<open>Images\<close>

text \<open>
  A \<open>cv::Mat\<close> of depth \<open>CV_8U\<close> (the bridge builds \<open>CV_8UC4\<close> frames and every step
  keeps 8-bit data): its dimensions, its channel count and its bytes (\<open>mat_data\<close>), row
  by row with the channels of a pixel side by side.
\<close>

record Mat =
  rows :: int
  cols :: int
  channels :: int
  mat_data :: "8 word list"

text \<open>The default-constructed \<open>Mat()\<close>.\<close>

definition Mat_default :: Mat where
  "Mat_default = \<lparr>rows = 0, cols = 0, channels = 1, mat_data = []\<rparr>"

text \<open>\<open>Mat::empty()\<close>: no data or no elements.\<close>

definition mat_empty :: "Mat \<Rightarrow> bool" where
  "mat_empty m = (mat_data m = [] \<or> rows m * cols m = 0)"



subsection \<open>OpenCV calls\<close>

text \<open>
  The pixel arithmetic of the OpenCV filters is not code of this repository. An image
  that the code computes through OpenCV is represented by the matrix the calls started
  from and the calls made on it, in order, with their arguments; two results are equal in
  the model only when the same calls were made on the same pixels. The arguments kept are:
  CLAHE clip limit and tile grid; denoising strength, template window and search window;
  Gaussian kernel width, height and sigma; adaptive threshold maximum, block size and
  constant (method \<open>ADAPTIVE_THRESH_GAUSSIAN_C\<close>, type \<open>THRESH_BINARY\<close>); global
  threshold and maximum (\<open>THRESH_BINARY | THRESH_OTSU\<close>); the rectangular kernel of the
  morphological close; the median aperture.
\<close>

datatype ColorConversion = COLOR_BGR2GRAY | COLOR_BGRA2GRAY

datatype cv_call =
    CvtColor ColorConversion
  | CLAHE_apply int int int
  | FastNlMeansDenoising int int int
  | GaussianBlur int int int
  | AdaptiveThreshold_Gaussian_Binary int int int
  | Threshold_Binary_Otsu int int
  | MorphologyEx_Close_Rect int int
  | MedianBlur int
  | Bitwise_not

record Image =
  origin :: Mat
  calls :: "cv_call list"

text \<open>The result \<open>Mat()\<close> of an early return.\<close>

definition Image_empty :: Image where
  "Image_empty = \<lparr>origin = Mat_default, calls = []\<rparr>"


text \<open>
  CLAHE, the adaptive threshold and \<open>countNonZero\<close> assert a single-channel input. After
  the grayscale step the image has one channel exactly when the source had 1, 3 or 4.
\<close>

definition gray_is_single :: "Mat \<Rightarrow> bool" where
  "gray_is_single src = (channels src = 1 \<or> channels src = 3 \<or> channels src = 4)"

section \<open>VisionProcessor\<close>

definition TARGET_WIDTH :: int where "TARGET_WIDTH = 856"
definition TARGET_HEIGHT :: int where "TARGET_HEIGHT = 540"


subsection \<open>binarizeForOCR and extractMRZRegion\<close>



subsection \<open>detectGlare\<close>







subsection \<open>ROIMapper\<close>

datatype ROIType = TCKN | SURNAME | NAME | MRZ | PHOTO | SERIAL | BIRTHDATE | EXPIRY










subsection \<open>extractROI and binarizeROI\<close>




subsection \<open>warpToID1\<close>

text \<open>
  After its guard \<open>warpToID1\<close> orders the corners, measures the edges in floating point
  and calls \<open>getPerspectiveTransform\<close> and \<open>warpPerspective\<close>. That remainder is the
  parameter \<open>warp\<close>, which may throw.
\<close>

definition warpToID1 ::
  "(Mat \<Rightarrow> (int \<times> int) list \<Rightarrow> error + Image) \<Rightarrow> Mat \<Rightarrow> (int \<times> int) list \<Rightarrow> error + Image" where
  "warpToID1 warp src corners =
     (if length corners \<noteq> 4 \<or> mat_empty src then Inr Image_empty
      else warp src corners)"

section \<open>The specification's reading of the vision processor\<close>





section \<open>Properties of the MRZ validator\<close>

subsection \<open>Helper lemmas: strings\<close>

lemma length_resize: "length (resize s n ch) = n"
  by (simp add: resize_def)

lemma substr_in_range: "pos \<le> length s \<Longrightarrow> substr s pos len = Inr (take len (drop pos s))"
  by (simp add: substr_def)

lemma length_eleven_cases:
  assumes "length s = 11"
  obtains c0 c1 c2 c3 c4 c5 c6 c7 c8 c9 c10
  where "s = [c0, c1, c2, c3, c4, c5, c6, c7, c8, c9, c10]"
  using assms that by (auto simp: length_Suc_conv eval_nat_numeral)

subsection \<open>Helper lemmas: the 7-3-1 checksum\<close>

lemma charToValue_icao: "charToValue c = icao_value c"
  by (cases c) (simp add: charToValue_def icao_value_def)

lemma WEIGHTS_icao: "WEIGHTS ! (i mod 3) = icao_weight (i mod 3)"
proof -
  have "i mod 3 = 0 \<or> i mod 3 = 1 \<or> i mod 3 = 2" by presburger
  then show ?thesis by (auto simp: WEIGHTS_def icao_weight_def)
qed

lemma calculateChecksum_loop_sum:
  "calculateChecksum_loop data i s =
     s + word_of_int (\<Sum>k = i..<length data. charToValue (data ! k) * WEIGHTS ! (k mod 3))"
proof (induction data i s rule: calculateChecksum_loop.induct)
  case (1 data i s)
  show ?case
  proof (cases "i < length data")
    case True
    then show ?thesis
      using 1 by (subst calculateChecksum_loop.simps) (simp add: sum.atLeast_Suc_lessThan add.assoc)
  next
    case False
    then show ?thesis by (subst calculateChecksum_loop.simps) simp
  qed
qed

lemma icao_value_range: "0 \<le> icao_value c \<and> icao_value c \<le> 35"
  by (cases c) (simp add: icao_value_def)

lemma icao_weight_range: "0 \<le> icao_weight r \<and> icao_weight r \<le> 7"
  by (simp add: icao_weight_def)

lemma icao_term_range:
  "0 \<le> icao_value c * icao_weight r \<and> icao_value c * icao_weight r \<le> 245"
proof -
  have "icao_value c * icao_weight r \<le> 35 * 7"
    using icao_value_range [of c] icao_weight_range [of r] by (intro mult_mono) auto
  then show ?thesis using icao_value_range [of c] icao_weight_range [of r] by simp
qed

lemma icao_sum_range: "0 \<le> icao_sum data \<and> icao_sum data \<le> 245 * int (length data)"
proof -
  have "icao_sum data \<le> (\<Sum>i<length data. 245)"
    unfolding icao_sum_def by (intro sum_mono) (simp add: icao_term_range)
  moreover have "0 \<le> icao_sum data"
    unfolding icao_sum_def by (intro sum_nonneg) (simp add: icao_term_range)
  ultimately show ?thesis by simp
qed

lemma calculateChecksum_loop_icao:
  "calculateChecksum_loop data 0 0 = word_of_int (icao_sum data)"
  by (simp add: calculateChecksum_loop_sum icao_sum_def charToValue_icao WEIGHTS_icao
      lessThan_atLeast0)

text \<open>Below the overflow threshold of the 32-bit accumulator the code computes the
  specification's checksum.\<close>

lemma calculateChecksum_no_overflow:
  assumes "245 * length data < 2 ^ 31"
  shows "calculateChecksum data = icao_checksum data"
proof -
  have r: "0 \<le> icao_sum data" "icao_sum data < 2 ^ 31"
    using icao_sum_range [of data] assms by auto
  have "sint (word_of_int (icao_sum data) :: 32 word) = icao_sum data"
    using r by (simp add: sint_sbintrunc' signed_take_bit_int_eq_self)
  moreover have "icao_sum data smod 10 = icao_sum data mod 10"
    using r by (simp add: smod_int_alt_def sgn_if)
  ultimately show ?thesis
    by (simp add: calculateChecksum_def calculateChecksum_loop_icao icao_checksum_def)
qed

lemma icao_checksum_sample: "icao_checksum ''123456789'' = 7"
  by (simp add: icao_checksum_def icao_sum_def icao_value_def icao_weight_def
      lessThan_nat_numeral lessThan_Suc)

lemma calculateChecksum_sample: "calculateChecksum ''123456789'' = 7"
  by (simp add: calculateChecksum_no_overflow icao_checksum_sample)

lemma validateCheckDigit_sample: "validateCheckDigit ''123456789'' c \<longleftrightarrow> c = CHR ''7''"
  by (cases c) (simp add: validateCheckDigit_def calculateChecksum_sample isdigit_def)

text \<open>
  The accumulator is exact as long as the weighted sum itself fits a 32-bit \<open>int\<close>.
\<close>

lemma calculateChecksum_exact:
  assumes "icao_sum data < 2 ^ 31"
  shows "calculateChecksum data = icao_checksum data"
proof -
  have r: "0 \<le> icao_sum data" "icao_sum data < 2 ^ 31"
    using icao_sum_range [of data] assms by auto
  have "sint (word_of_int (icao_sum data) :: 32 word) = icao_sum data"
    using r by (simp add: sint_sbintrunc' signed_take_bit_int_eq_self)
  moreover have "icao_sum data smod 10 = icao_sum data mod 10"
    using r by (simp add: smod_int_alt_def sgn_if)
  ultimately show ?thesis
    by (simp add: calculateChecksum_def calculateChecksum_loop_icao icao_checksum_def)
qed

text \<open>
  Three consecutive weights add up to 11, so the first \<open>n\<close> weights add up to
  \<open>11 * n / 3\<close> plus what the started group of three contributes.
\<close>

lemma icao_weight_sum_closed:
  "3 * icao_weight_sum n
     = 11 * int n + (if n mod 3 = 0 then 0 else if n mod 3 = 1 then 10 else 8)"
proof (induction n)
  case 0
  then show ?case by (simp add: icao_weight_sum_def)
next
  case (Suc n)
  have s: "icao_weight_sum (Suc n) = icao_weight_sum n + icao_weight (n mod 3)"
    by (simp add: icao_weight_sum_def)
  have "n mod 3 = 0 \<or> n mod 3 = 1 \<or> n mod 3 = 2" by presburger
  then show ?case
    using Suc unfolding s by (auto simp: icao_weight_def mod_Suc algebra_simps)
qed

lemma icao_weight_sum_mono: "n \<le> m \<Longrightarrow> icao_weight_sum n \<le> icao_weight_sum m"
  unfolding icao_weight_sum_def
  by (intro sum_mono2) (auto simp: icao_weight_def)

text \<open>No character is worth more than \<open>Z\<close>, which is worth 35.\<close>

lemma icao_sum_le_weight_sum: "icao_sum data \<le> 35 * icao_weight_sum (length data)"
proof -
  have "icao_sum data \<le> (\<Sum>i<length data. 35 * icao_weight (i mod 3))"
    unfolding icao_sum_def
    using icao_value_range icao_weight_range by (intro sum_mono mult_right_mono) auto
  then show ?thesis by (simp add: icao_weight_sum_def sum_distrib_left)
qed

lemma icao_sum_replicate_Z: "icao_sum (replicate n (CHR ''Z'')) = 35 * icao_weight_sum n"
  by (simp add: icao_sum_def icao_weight_sum_def sum_distrib_left icao_value_def)

lemma icao_weight_sum_16733637: "icao_weight_sum 16733637 = 61356669"
  using icao_weight_sum_closed [of 16733637] by simp

lemma icao_weight_sum_16733638: "icao_weight_sum 16733638 = 61356676"
  using icao_weight_sum_closed [of 16733638] by simp

text \<open>Up to 16733637 characters the sum stays below \<open>2^31\<close>: 35 * 61356669 = 2147483415.\<close>

lemma icao_sum_short:
  assumes "length data \<le> 16733637"
  shows "icao_sum data < 2 ^ 31"
proof -
  have "icao_sum data \<le> 35 * icao_weight_sum (length data)" by (rule icao_sum_le_weight_sum)
  also have "\<dots> \<le> 35 * icao_weight_sum 16733637" using icao_weight_sum_mono [OF assms] by simp
  finally show ?thesis by (simp add: icao_weight_sum_16733637)
qed

text \<open>
  C1, as the specification states it (for every string), fails: the accumulator \<open>sum\<close>
  is a 32-bit \<open>int\<close>. For the string of 16733638 characters \<open>Z\<close> the weighted sum is
  35 * 61356676 = 2147483660, just above \<open>2^31 - 1\<close>; the accumulator then holds
  2147483660 - 2^32 = -2147483636, whose remainder by 10 in C++ is -6, where the
  specification's sum modulo 10 is 0.
\<close>

theorem C1_calculateChecksum_counterexample:
  "calculateChecksum (replicate 16733638 (CHR ''Z'')) = - 6
   \<and> (\<Sum>i<length (replicate 16733638 (CHR ''Z'')).
         icao_value (replicate 16733638 (CHR ''Z'') ! i) * icao_weight (i mod 3)) mod 10 = 0"
  using icao_sum_replicate_Z [of 16733638]
  by (simp add: calculateChecksum_def calculateChecksum_loop_icao icao_sum_def
      icao_weight_sum_16733638 smod_int_alt_def sgn_if)

text \<open>
  C1, amended. For every string \<open>data\<close> whose weighted sum is below \<open>2^31\<close>, and so for
  every string of at most 16733637 characters, \<open>calculateChecksum data\<close> is the sum of
  \<open>value(data[i]) * weight(i mod 3)\<close> modulo 10, with weights 7, 3, 1 and the ICAO
  character values (a digit is itself, a letter is 10 plus its offset from A, the filler
  and any other character is 0); \<open>calculateChecksum("123456789")\<close> is 7, and
  \<open>validateCheckDigit("123456789", c)\<close> holds exactly for the character 7. The
  function is private and \<open>validateWithScore\<close> calls it with 6, 9 or 50 characters.
\<close>

theorem C1_calculateChecksum_icao:
  "((\<Sum>i<length data. icao_value (data ! i) * icao_weight (i mod 3)) < 2 ^ 31 \<longrightarrow>
      calculateChecksum data
        = (\<Sum>i<length data. icao_value (data ! i) * icao_weight (i mod 3)) mod 10)
   \<and> (length data \<le> 16733637 \<longrightarrow>
        (\<Sum>i<length data. icao_value (data ! i) * icao_weight (i mod 3)) < 2 ^ 31
        \<and> calculateChecksum data
            = (\<Sum>i<length data. icao_value (data ! i) * icao_weight (i mod 3)) mod 10)
   \<and> calculateChecksum ''123456789'' = 7
   \<and> (validateCheckDigit ''123456789'' c \<longleftrightarrow> c = CHR ''7'')"
  using calculateChecksum_exact [of data] icao_sum_short [of data] calculateChecksum_sample
    validateCheckDigit_sample [of c]
  by (simp add: icao_checksum_def icao_sum_def)

theorem C1_calculateChecksum_icao_witness:
  "(\<Sum>i<length ''L898902C3''. icao_value (''L898902C3'' ! i) * icao_weight (i mod 3))
     = 316
   \<and> (316::int) < 2 ^ 31
   \<and> length ''L898902C3'' \<le> (16733637::nat)
   \<and> calculateChecksum ''L898902C3'' = 6"
  using C1_calculateChecksum_icao [of "''L898902C3''" "CHR ''7''"]
  by (simp add: icao_value_def icao_weight_def lessThan_nat_numeral lessThan_Suc)

subsection \<open>Helper lemmas: validateTCKN\<close>

lemma validateTCKN_loop_step:
  assumes "i < 9" "j = i + 1"
  shows "validateTCKN_loop s i od ev t =
     (if isdigit (s ! i)
      then (if even i
            then validateTCKN_loop s j (od + (of_char (s ! i) - 48)) ev (t + (of_char (s ! i) - 48))
            else validateTCKN_loop s j od (ev + (of_char (s ! i) - 48)) (t + (of_char (s ! i) - 48)))
      else None)"
  using assms by (subst validateTCKN_loop.simps) (simp add: Let_def even_iff_mod_2_eq_zero)

lemma validateTCKN_loop_end: "validateTCKN_loop s 9 od ev t = Some (od, ev, t)"
  by (subst validateTCKN_loop.simps) simp

lemma validateTCKN_loop_unrolled:
  "validateTCKN_loop [c0, c1, c2, c3, c4, c5, c6, c7, c8, c9, c10] 0 0 0 0 =
     (if list_all isdigit [c0, c1, c2, c3, c4, c5, c6, c7, c8]
      then Some (of_char c0 - 48 + (of_char c2 - 48) + (of_char c4 - 48) + (of_char c6 - 48)
                   + (of_char c8 - 48),
                 of_char c1 - 48 + (of_char c3 - 48) + (of_char c5 - 48) + (of_char c7 - 48),
                 of_char c0 - 48 + (of_char c1 - 48) + (of_char c2 - 48) + (of_char c3 - 48)
                   + (of_char c4 - 48) + (of_char c5 - 48) + (of_char c6 - 48)
                   + (of_char c7 - 48) + (of_char c8 - 48))
      else None)"
  by (simp add: validateTCKN_loop_step [of 0 "Suc 0"] validateTCKN_loop_step [of "Suc 0" 2]
      validateTCKN_loop_step [of 2 3] validateTCKN_loop_step [of 3 4]
      validateTCKN_loop_step [of 4 5] validateTCKN_loop_step [of 5 6]
      validateTCKN_loop_step [of 6 7] validateTCKN_loop_step [of 7 8]
      validateTCKN_loop_step [of 8 9] validateTCKN_loop_end)

text \<open>C++ \<open>%\<close> followed by the \<open>+= 10\<close> repair is the mathematical remainder.\<close>

lemma smod_normalized:
  "(if (a::int) smod 10 < 0 then a smod 10 + 10 else a smod 10) = a mod 10"
  by (auto simp: smod_int_alt_def sgn_if abs_if zmod_zminus1_eq_if)

lemma of_char_digit_char:
  assumes "0 \<le> n" "n \<le> 9"
  shows "of_char (digit_char n) = 48 + n"
proof -
  have all: "\<forall>k<10. of_char (''0123456789'' ! k) = 48 + int k"
    by (simp add: All_less_Suc eval_nat_numeral)
  have "nat n < 10" using assms by simp
  with all have "of_char (''0123456789'' ! nat n) = 48 + int (nat n)" by blast
  then show ?thesis using assms by (simp add: digit_char_def)
qed

lemma digit_char_iff:
  assumes "0 \<le> n" "n \<le> 9"
  shows "n = of_char c - 48 \<longleftrightarrow> c = digit_char n"
proof -
  have "n = of_char c - 48 \<longleftrightarrow> (of_char c :: int) = of_char (digit_char n)"
    unfolding of_char_digit_char [OF assms] by auto
  then show ?thesis by (simp only: of_char_eq_iff)
qed

lemma validateTCKN_iff:
  "validateTCKN s \<longleftrightarrow>
     length s = 11 \<and> s ! 0 \<noteq> CHR ''0'' \<and> list_all isdigit (take 9 s)
     \<and> s ! 9 = digit_char (tckn_digit10 s) \<and> s ! 10 = digit_char (tckn_digit11 s)"
proof (cases "length s = 11")
  case False
  then show ?thesis by (simp add: validateTCKN_def)
next
  case len: True
  then obtain c0 c1 c2 c3 c4 c5 c6 c7 c8 c9 c10
    where s: "s = [c0, c1, c2, c3, c4, c5, c6, c7, c8, c9, c10]"
    by (rule length_eleven_cases)
  have r10: "0 \<le> tckn_digit10 s" "tckn_digit10 s \<le> 9"
    by (simp_all add: tckn_digit10_def)
  have r11: "0 \<le> tckn_digit11 s" "tckn_digit11 s \<le> 9"
    by (simp_all add: tckn_digit11_def)
  note i10 = digit_char_iff [OF r10, of "s ! 9"]
  note i11 = digit_char_iff [OF r11, of "s ! 10"]
  show ?thesis
  proof (cases "list_all isdigit (take 9 s) \<and> s ! 0 \<noteq> CHR ''0''")
    case False
    then show ?thesis unfolding validateTCKN_def s validateTCKN_loop_unrolled by auto
  next
    case dig: True
    define od where "od = tckn_d s 1 + tckn_d s 3 + tckn_d s 5 + tckn_d s 7 + tckn_d s 9"
    define ev where "ev = tckn_d s 2 + tckn_d s 4 + tckn_d s 6 + tckn_d s 8"
    define tot where "tot = tckn_d s 1 + tckn_d s 2 + tckn_d s 3 + tckn_d s 4 + tckn_d s 5
                           + tckn_d s 6 + tckn_d s 7 + tckn_d s 8 + tckn_d s 9"
    have loop: "validateTCKN_loop s 0 0 0 0 = Some (od, ev, tot)"
      using dig unfolding s validateTCKN_loop_unrolled od_def ev_def tot_def tckn_d_def by simp
    have d10: "tckn_digit10 s = (od * 7 - ev) mod 10"
      by (simp add: tckn_digit10_def od_def ev_def)
    have d11: "tckn_digit11 s = (tot + tckn_digit10 s) mod 10"
      by (simp add: tckn_digit11_def tot_def)
    have "0 \<le> tot"
      using dig unfolding s tot_def tckn_d_def by (simp add: isdigit_def)
    then have pos: "0 \<le> tot + tckn_digit10 s" using r10 by simp
    have sm: "(tot + tckn_digit10 s) smod 10 = tckn_digit11 s"
      using pos unfolding d11 by (simp add: smod_int_alt_def sgn_if)
    have n10: "(if (od * 7 - ev) smod 10 < 0 then (od * 7 - ev) smod 10 + 10
                else (od * 7 - ev) smod 10) = tckn_digit10 s"
      unfolding d10 by (rule smod_normalized)
    have "validateTCKN s \<longleftrightarrow>
            tckn_digit10 s = of_char (s ! 9) - 48 \<and> tckn_digit11 s = of_char (s ! 10) - 48"
    proof (cases "tckn_digit10 s = of_char (s ! 9) - 48")
      case True
      then show ?thesis
        using dig len sm unfolding validateTCKN_def loop
        by (simp add: Let_def n10 del: One_nat_def)
    next
      case False
      then show ?thesis
        using dig len unfolding validateTCKN_def loop
        by (simp add: Let_def n10)
    qed
    then show ?thesis using dig len i10 i11 by auto
  qed
qed

lemma validateTCKN_sample: "validateTCKN ''12345678950''"
  by code_simp

lemma validateTCKN_sample_last_digit:
  "c \<noteq> CHR ''0'' \<Longrightarrow> \<not> validateTCKN (''1234567895'' @ [c])"
proof -
  have "tckn_digit11 (''1234567895'' @ [c]) = 0"
    by (simp add: tckn_digit11_def tckn_digit10_def tckn_d_def)
  then have "(''1234567895'' @ [c]) ! 10 = digit_char (tckn_digit11 (''1234567895'' @ [c]))
               \<longleftrightarrow> c = CHR ''0''"
    by (simp add: digit_char_def)
  then show "c \<noteq> CHR ''0'' \<Longrightarrow> \<not> validateTCKN (''1234567895'' @ [c])"
    unfolding validateTCKN_iff by blast
qed

text \<open>
  C2. \<open>validateTCKN(s)\<close> is true exactly when \<open>s\<close> has 11 characters, does not start
  with 0, its first nine characters are digits d1..d9, its tenth character is the digit
  \<open>((d1+d3+d5+d7+d9)*7 - (d2+d4+d6+d8)) mod 10\<close> taken in 0..9, and its eleventh is the
  digit \<open>(d1+...+d9+digit10) mod 10\<close>. \<open>validateTCKN("12345678950")\<close> is true, and with
  any other last character it is false.
\<close>

theorem C2_validateTCKN_spec:
  "(validateTCKN s \<longleftrightarrow>
      length s = 11 \<and> s ! 0 \<noteq> CHR ''0'' \<and> list_all isdigit (take 9 s)
      \<and> s ! 9 = digit_char (tckn_digit10 s) \<and> s ! 10 = digit_char (tckn_digit11 s))
   \<and> validateTCKN ''12345678950''
   \<and> (c \<noteq> CHR ''0'' \<longrightarrow> \<not> validateTCKN (''1234567895'' @ [c]))"
  using validateTCKN_iff [of s] validateTCKN_sample validateTCKN_sample_last_digit [of c]
  by blast

theorem C2_validateTCKN_spec_witness:
  "CHR ''1'' \<noteq> CHR ''0'' \<and> \<not> validateTCKN ''12345678951'' \<and> validateTCKN ''10000000146''"
  using C2_validateTCKN_spec [of "''10000000146''" "CHR ''1''"]
  by (simp add: isdigit_def tckn_digit10_def tckn_digit11_def tckn_d_def digit_char_def)

subsection \<open>Helper lemmas: correctOCRErrors\<close>

text \<open>\<open>toupper\<close> of the C locale is the uppercasing of the 26 letters.\<close>

lemma toupper_upper_case: "toupper c = upper_case c"
  by (cases c) (simp add: toupper_def upper_case_def char_of_def)

lemma correctChar_spec: "correctChar c = ocr_spec_char c"
proof -
  have "(if u = CHR ''O'' then CHR ''0''
      else if u = CHR ''I'' then CHR ''1''
      else if u = CHR ''S'' then CHR ''5''
      else if u = CHR ''B'' then CHR ''8''
      else if u = CHR ''G'' then CHR ''6''
      else if u = CHR ''D'' then CHR ''0''
      else if u = CHR ''Q'' then CHR ''0''
      else if u = CHR ''Z'' then CHR ''2''
      else if u = CHR '' '' then CHR ''<''
      else if u = CHR ''.'' then CHR ''<''
      else if (of_char (CHR ''A'') \<le> (of_char u :: int) \<and> (of_char u :: int) \<le> of_char (CHR ''Z''))
              \<or> (of_char (CHR ''0'') \<le> (of_char u :: int) \<and> (of_char u :: int) \<le> of_char (CHR ''9''))
              \<or> u = CHR ''<''
        then u
      else CHR ''<'') = (case map_of ocr_substitutions u of
        Some d \<Rightarrow> d
      | None \<Rightarrow> if u \<in> mrz_alphabet then u else CHR ''<'')" for u
    by (cases u) (simp add: ocr_substitutions_def mrz_alphabet_def)
  then show ?thesis
    by (simp add: correctChar_def ocr_spec_char_def Let_def toupper_upper_case)
qed

lemma correctOCRErrors_loop_map:
  "correctOCRErrors_loop line corrected = corrected @ map correctChar line"
  by (induction line arbitrary: corrected) simp_all

lemma correctOCRErrors_sample:
  "correctOCRErrors ''oIsbgdqz .aK7<#'' = ''01586002<<AK7<<''"
  by (simp add: correctOCRErrors_def correctChar_def toupper_def char_of_def Let_def)

text \<open>
  C4. For every input string \<open>correctOCRErrors\<close> maps each character on its own: the
  character is uppercased (a lowercase letter becomes its capital, anything else stays),
  then replaced through the table O-0, I-1, S-5, B-8, G-6, D-0, Q-0, Z-2, space and dot
  to the filler; an uppercased character not in the table is kept when it is in
  \<open>[A-Z0-9<]\<close> and becomes the filler otherwise. The uppercasing, the table and the
  alphabet on the right-hand side are those of the specification, none of them the
  code's; the sample runs the code on lowercase letters of the table, on a lowercase
  letter outside it and on a character outside the alphabet.
\<close>

theorem C4_correctOCRErrors_map:
  "correctOCRErrors line = map ocr_spec_char line
   \<and> correctOCRErrors ''oIsbgdqz .aK7<#'' = ''01586002<<AK7<<''"
  using correctOCRErrors_sample
  by (simp add: correctOCRErrors_def correctOCRErrors_loop_map correctChar_spec)


subsection \<open>Helper lemmas: validateWithScore\<close>

lemma paddedLines_length:
  assumes "paddedLines l1 l2 l3 = (p1, p2, p3)"
  shows "length p1 = 30" "length p2 = 30" "length p3 = 30"
  using assms by (auto simp: paddedLines_def length_resize)

text \<open>With lines of 30 characters no substring can throw, and every block runs.\<close>

lemma validateWithScore_explicit:
  assumes "paddedLines l1 l2 l3 = (p1, p2, p3)"
  shows "validateWithScore l1 l2 l3 = Inr
     \<lparr>totalScore = (if validateCheckDigit (slice p1 5 14) (p1 ! 14) then 15 else 0)
                + (if validateCheckDigit (slice p2 0 6) (p2 ! 6) then 15 else 0)
                + (if validateCheckDigit (slice p2 8 14) (p2 ! 14) then 15 else 0)
                + (if validateCheckDigit
                        (slice p1 5 30 @ slice p2 0 7 @ slice p2 8 15 @ slice p2 18 29) (p2 ! 29)
                   then 15 else 0),
       docNumScore = (if validateCheckDigit (slice p1 5 14) (p1 ! 14) then 15 else 0),
       dobScore = (if validateCheckDigit (slice p2 0 6) (p2 ! 6) then 15 else 0),
       expiryScore = (if validateCheckDigit (slice p2 8 14) (p2 ! 14) then 15 else 0),
       compositeScore =
         (if validateCheckDigit
               (slice p1 5 30 @ slice p2 0 7 @ slice p2 8 15 @ slice p2 18 29) (p2 ! 29)
          then 15 else 0),
       docNumValid = validateCheckDigit (slice p1 5 14) (p1 ! 14),
       dobValid = validateCheckDigit (slice p2 0 6) (p2 ! 6),
       expiryValid = validateCheckDigit (slice p2 8 14) (p2 ! 14),
       compositeValid =
         validateCheckDigit
           (slice p1 5 30 @ slice p2 0 7 @ slice p2 8 15 @ slice p2 18 29) (p2 ! 29),
       correctedLine1 = correctOCRErrors l1,
       correctedLine2 = correctOCRErrors l2,
       correctedLine3 = correctOCRErrors l3\<rparr>"
proof -
  have len: "length p1 = 30" "length p2 = 30"
    using paddedLines_length [OF assms] by simp_all
  show ?thesis
    unfolding validateWithScore_def assms
    by (simp add: check_docNum_def check_dob_def check_expiry_def check_composite_def
        bind_err_def substr_in_range len slice_def Let_def)
qed

lemma validateCheckDigit_icao:
  assumes "245 * length data < 2 ^ 31"
  shows "validateCheckDigit data ch
           \<longleftrightarrow> isdigit ch \<and> icao_checksum data = of_char ch - 48"
  using calculateChecksum_no_overflow [OF assms]
  by (simp add: validateCheckDigit_def Let_def)

text \<open>
  C3. In \<open>validateWithScore\<close> the composite check gives its 15 points exactly when the
  character at position 29 of the padded second line is an ASCII digit and equals the ICAO
  checksum of the characters \<open>[5,30)\<close> of the padded first line followed by \<open>[0,7)\<close>,
  \<open>[8,15)\<close> and \<open>[18,29)\<close> of the padded second line.
\<close>

theorem C3_composite_check:
  "case paddedLines line1 line2 line3 of (p1, p2, p3) \<Rightarrow>
     \<exists>score. validateWithScore line1 line2 line3 = Inr score
       \<and> (compositeScore score = 15
            \<longleftrightarrow> isdigit (p2 ! 29)
                \<and> icao_checksum (slice p1 5 30 @ slice p2 0 7 @ slice p2 8 15 @ slice p2 18 29)
                     = of_char (p2 ! 29) - 48)"
proof -
  obtain p1 p2 p3 where p: "paddedLines line1 line2 line3 = (p1, p2, p3)"
    by (cases "paddedLines line1 line2 line3") auto
  have "length p1 = 30" "length p2 = 30"
    using paddedLines_length [OF p] by simp_all
  then have "245 * length (slice p1 5 30 @ slice p2 0 7 @ slice p2 8 15 @ slice p2 18 29)
               < (2::nat) ^ 31"
    by (simp add: slice_def)
  note vc = validateCheckDigit_icao [OF this, of "p2 ! 29"]
  show ?thesis
    unfolding p validateWithScore_explicit [OF p] using vc by simp
qed

text \<open>
  C10. For every three input lines \<open>validateWithScore\<close> returns a score (it cannot
  throw); each of the four part scores is 0 or 15, and is 15 exactly when its valid flag
  is set; the total is their sum, hence one of 0, 15, 30, 45, 60.
\<close>

theorem C10_score_invariant:
  "\<exists>score. validateWithScore line1 line2 line3 = Inr score
     \<and> docNumScore score \<in> {0, 15} \<and> dobScore score \<in> {0, 15}
     \<and> expiryScore score \<in> {0, 15} \<and> compositeScore score \<in> {0, 15}
     \<and> (docNumScore score = 15 \<longleftrightarrow> docNumValid score)
     \<and> (dobScore score = 15 \<longleftrightarrow> dobValid score)
     \<and> (expiryScore score = 15 \<longleftrightarrow> expiryValid score)
     \<and> (compositeScore score = 15 \<longleftrightarrow> compositeValid score)
     \<and> totalScore score
          = docNumScore score + dobScore score + expiryScore score + compositeScore score
     \<and> totalScore score \<in> {0, 15, 30, 45, 60}"
proof -
  obtain p1 p2 p3 where p: "paddedLines line1 line2 line3 = (p1, p2, p3)"
    by (cases "paddedLines line1 line2 line3") auto
  show ?thesis
    unfolding validateWithScore_explicit [OF p] by simp
qed

text \<open>
  C5, as the specification states it, fails: \<open>resize(30, '<')\<close> cuts a longer string,
  so a corrected line of 31 characters is not used as it is.
\<close>

theorem C5_long_line_counterexample:
  "length (correctOCRErrors ''AAAAAAAAAAAAAAAAAAAAAAAAAAAAAAA'') > 30
   \<and> fst (paddedLines ''AAAAAAAAAAAAAAAAAAAAAAAAAAAAAAA'' [] [])
        \<noteq> correctOCRErrors ''AAAAAAAAAAAAAAAAAAAAAAAAAAAAAAA''"
  by code_simp

text \<open>
  C5, amended. In \<open>validateWithScore\<close> a corrected line shorter than 30 characters is
  padded with the filler up to length 30, and a corrected line of 30 characters or more is
  cut to its first 30 characters: each working line has exactly 30 characters.
\<close>

theorem C5_lines_padded_or_cut:
  "case paddedLines line1 line2 line3 of (p1, p2, p3) \<Rightarrow>
     (\<forall>(raw, p) \<in> {(line1, p1), (line2, p2), (line3, p3)}.
        length p = 30
        \<and> (length (correctOCRErrors raw) < 30 \<longrightarrow>
              p = correctOCRErrors raw @ replicate (30 - length (correctOCRErrors raw)) (CHR ''<''))
        \<and> (length (correctOCRErrors raw) \<ge> 30 \<longrightarrow> p = take 30 (correctOCRErrors raw)))"
  by (simp add: paddedLines_def resize_def)

theorem C5_lines_padded_or_cut_witness:
  "length (correctOCRErrors ''ab'') < 30
   \<and> length (correctOCRErrors ''AAAAAAAAAAAAAAAAAAAAAAAAAAAAAAAXY'') \<ge> 30
   \<and> paddedLines ''ab'' ''AAAAAAAAAAAAAAAAAAAAAAAAAAAAAAAXY'' []
       = (''A8<<<<<<<<<<<<<<<<<<<<<<<<<<<<'', ''AAAAAAAAAAAAAAAAAAAAAAAAAAAAAA'',
          ''<<<<<<<<<<<<<<<<<<<<<<<<<<<<<<'')"
  using C5_lines_padded_or_cut [of "''ab''" "''AAAAAAAAAAAAAAAAAAAAAAAAAAAAAAAXY''" "[]"]
  by code_simp


section \<open>Properties of the single-precision model\<close>

subsection \<open>Digit counts and rounded quotients\<close>

lemma bits_bounds:
  "0 < n \<Longrightarrow> 2 ^ (bits n - 1) \<le> n \<and> n < 2 ^ bits n"
proof (induction n rule: bits.induct)
  case (1 n)
  show ?case
  proof (cases "n div 2 = 0")
    case True
    with 1(2) have "n = 1" by presburger
    then show ?thesis by (simp add: bits.simps)
  next
    case False
    then have h: "0 < n div 2" by simp
    from 1(1) [OF _ h] 1(2)
    have ih: "2 ^ (bits (n div 2) - 1) \<le> n div 2" "n div 2 < 2 ^ bits (n div 2)" by auto
    have b: "bits n = Suc (bits (n div 2))" using 1(2) by (subst bits.simps) simp
    have pos: "0 < bits (n div 2)" using h by (subst bits.simps) simp
    then have "(2::nat) ^ (bits n - 1) = 2 * 2 ^ (bits (n div 2) - 1)"
      unfolding b by (cases "bits (n div 2)") simp_all
    moreover have "2 * (n div 2) \<le> n" by simp
    ultimately have lo: "2 ^ (bits n - 1) \<le> n" using ih(1) by linarith
    have "n < 2 * (n div 2) + 2" by presburger
    also have "\<dots> \<le> 2 * 2 ^ bits (n div 2)" using ih(2) by simp
    finally have "n < 2 ^ bits n" unfolding b by simp
    with lo show ?thesis by simp
  qed
qed

lemma bits_pos: "0 < n \<Longrightarrow> 0 < bits n"
  by (subst bits.simps) simp

lemma bits_mono:
  assumes "a \<le> b"
  shows "bits a \<le> bits b"
proof (cases "a = 0")
  case True
  then show ?thesis by (simp add: bits.simps)
next
  case False
  then have a: "0 < a" and b: "0 < b" using assms by auto
  show ?thesis
  proof (rule ccontr)
    assume "\<not> bits a \<le> bits b"
    then have "bits b \<le> bits a - 1" by simp
    then have "(2::nat) ^ bits b \<le> 2 ^ (bits a - 1)" by (rule power_increasing) simp
    with bits_bounds [OF a] bits_bounds [OF b] assms show False by linarith
  qed
qed

lemma bits_double: "0 < n \<Longrightarrow> bits (2 * n) = Suc (bits n)"
  by (subst bits.simps) simp

lemma bits_shift: "0 < n \<Longrightarrow> bits (2 ^ k * n) = bits n + k"
proof (induction k)
  case 0
  then show ?case by simp
next
  case (Suc k)
  then have "bits (2 * (2 ^ k * n)) = Suc (bits (2 ^ k * n))" by (intro bits_double) simp
  with Suc show ?case by (simp add: mult.assoc)
qed

lemma bits_one: "bits 1 = 1"
  by (simp add: bits.simps)

lemma binary_exponent_less:
  assumes "0 < p" "0 < q" "p < 2 ^ j * q"
  shows "binary_exponent p q < int j"
proof -
  have "bits p \<le> bits (2 ^ j * q)" using assms(3) by (intro bits_mono) simp
  then have l0: "int (bits p) - int (bits q) \<le> int j" using bits_shift [OF assms(2), of j] by simp
  show ?thesis
  proof (cases "int (bits p) - int (bits q) = int j")
    case True
    then have "\<not> q * 2 ^ nat (int (bits p) - int (bits q)) \<le> p"
      using assms(3) by (simp add: mult.commute)
    then show ?thesis using True by (simp add: binary_exponent_def Let_def)
  next
    case False
    with l0 have "int (bits p) - int (bits q) < int j" by simp
    then show ?thesis by (auto simp: binary_exponent_def Let_def)
  qed
qed


lemma rne_div_ge:
  assumes "0 < b" "K * b \<le> a"
  shows "K \<le> rne_div a b"
proof -
  have "K \<le> a div b" using assms by (metis div_le_mono div_mult_self_is_m)
  then show ?thesis by (simp add: rne_div_def Let_def)
qed



text \<open>Shape of a rounded fraction below \<open>2^24\<close>: the scale is a natural number.\<close>

lemma f32_round_scaled:
  assumes "0 < p" "0 < q" "p < 2 ^ j * q" "j \<le> 24"
  obtains s :: nat where
    "f32_round sg p q = \<lparr>neg = sg, mant = rne_div (p * 2 ^ s) q, expo = - int s\<rparr>"
    "24 \<le> s + j"
proof -
  define s' where "s' = min (23 - binary_exponent p q) 149"
  have "binary_exponent p q < int j" by (rule binary_exponent_less [OF assms(1-3)])
  then have s': "24 - int j \<le> s'" using assms(4) by (simp add: s'_def)
  then have nn: "0 \<le> s'" using assms(4) by simp
  have "f32_round sg p q = \<lparr>neg = sg, mant = rne_div (p * 2 ^ nat s') q, expo = - int (nat s')\<rparr>"
    using assms(1) nn by (simp add: f32_round_def Let_def s'_def)
  moreover have "24 \<le> nat s' + j" using s' nn by linarith
  ultimately show ?thesis by (rule that)
qed


lemma f32_round_lower:
  assumes "0 < p" "0 < q" "N * q \<le> p" "p < 2 ^ 24 * q"
  shows "int N \<le> f32_to_int (f32_round False p q)"
proof -
  obtain s :: nat where
    f: "f32_round False p q = \<lparr>neg = False, mant = rne_div (p * 2 ^ s) q, expo = - int s\<rparr>"
    by (rule f32_round_scaled [OF assms(1,2,4) order_refl])
  have "(N * 2 ^ s) * q \<le> p * 2 ^ s" using assms(3) by (simp add: mult.assoc mult.commute mult_le_mono1)
  then have m: "N * 2 ^ s \<le> rne_div (p * 2 ^ s) q" by (rule rne_div_ge [OF assms(2)])
  then have "N \<le> rne_div (p * 2 ^ s) q div 2 ^ s"
    by (metis div_le_mono div_mult_self_is_m zero_less_numeral zero_less_power)
  then show ?thesis
    unfolding f by (cases "s = 0") (simp_all add: f32_to_int_def Let_def)
qed

text \<open>The exponent that \<open>f32_round\<close> scales by is the binary exponent of the fraction.\<close>

lemma binary_exponent_bounds:
  assumes "0 < p" "0 < q"
  defines "l \<equiv> binary_exponent p q"
  shows "(2::rat) powi l \<le> of_nat p / of_nat q" and "of_nat p / of_nat q < (2::rat) powi (l + 1)"
proof -
  define l0 where "l0 = int (bits p) - int (bits q)"
  note bp = bits_bounds [OF assms(1)] and bq = bits_bounds [OF assms(2)]
  have pp: "0 < bits p" and pq: "0 < bits q" using assms by (simp_all add: bits_pos)
  have qpos: "(0::rat) < of_nat q" using assms(2) by simp
  have test: "(if 0 \<le> l0 then q * 2 ^ nat l0 \<le> p else q \<le> p * 2 ^ nat (- l0))
                \<longleftrightarrow> (2::rat) powi l0 \<le> of_nat p / of_nat q"
  proof (cases "0 \<le> l0")
    case True
    have "(2::rat) powi l0 \<le> of_nat p / of_nat q \<longleftrightarrow> (2::rat) ^ nat l0 * of_nat q \<le> of_nat p"
      using True qpos by (simp add: power_int_def pos_le_divide_eq)
    also have "\<dots> \<longleftrightarrow> (of_nat (2 ^ nat l0 * q) :: rat) \<le> of_nat p" by simp
    also have "\<dots> \<longleftrightarrow> 2 ^ nat l0 * q \<le> p" by (simp only: of_nat_le_iff)
    finally show ?thesis using True by (simp add: mult.commute)
  next
    case False
    have "(2::rat) powi l0 \<le> of_nat p / of_nat q \<longleftrightarrow> of_nat q \<le> of_nat p * (2::rat) ^ nat (- l0)"
      using False qpos by (simp add: power_int_def field_simps)
    also have "\<dots> \<longleftrightarrow> (of_nat q :: rat) \<le> of_nat (p * 2 ^ nat (- l0))" by simp
    also have "\<dots> \<longleftrightarrow> q \<le> p * 2 ^ nat (- l0)" by (simp only: of_nat_le_iff)
    finally show ?thesis using False by simp
  qed
  have up: "of_nat p / of_nat q < (2::rat) powi (l0 + 1)"
  proof -
    have "(of_nat p :: rat) < 2 ^ bits p" using bp by (metis of_nat_less_iff of_nat_numeral of_nat_power)
    moreover have "(2::rat) ^ (bits q - 1) \<le> of_nat q" using bq by (metis of_nat_le_iff of_nat_numeral of_nat_power)
    ultimately have "of_nat p / of_nat q < (2::rat) ^ bits p / 2 ^ (bits q - 1)"
      using qpos by (intro frac_less) simp_all
    also have "\<dots> = 2 powi (int (bits p) - int (bits q - 1))"
      by (simp add: power_int_diff)
    also have "int (bits p) - int (bits q - 1) = l0 + 1" using pq by (simp add: l0_def)
    finally show ?thesis .
  qed
  have lo: "(2::rat) powi (l0 - 1) \<le> of_nat p / of_nat q"
  proof -
    have "(2::rat) ^ (bits p - 1) \<le> of_nat p" using bp by (metis of_nat_le_iff of_nat_numeral of_nat_power)
    moreover have "(of_nat q :: rat) \<le> 2 ^ bits q" using bq by (metis less_imp_le of_nat_le_iff of_nat_numeral of_nat_power)
    ultimately have "(2::rat) ^ (bits p - 1) / 2 ^ bits q \<le> of_nat p / of_nat q"
      using qpos by (intro frac_le) simp_all
    moreover have "(2::rat) ^ (bits p - 1) / 2 ^ bits q = 2 powi (int (bits p - 1) - int (bits q))"
      by (simp add: power_int_diff)
    moreover have "int (bits p - 1) - int (bits q) = l0 - 1" using pp by (simp add: l0_def)
    ultimately show ?thesis by simp
  qed
  show "(2::rat) powi l \<le> of_nat p / of_nat q"
    using test lo by (auto simp: l_def binary_exponent_def Let_def l0_def [symmetric])
  have "\<not> (2::rat) powi l0 \<le> of_nat p / of_nat q \<Longrightarrow> of_nat p / of_nat q < (2::rat) powi (l0 - 1 + 1)"
    by simp
  then show "of_nat p / of_nat q < (2::rat) powi (l + 1)"
    using test up by (auto simp: l_def binary_exponent_def Let_def l0_def [symmetric])
qed

subsection \<open>Converted integers and their quotient\<close>








subsection \<open>The top row of the MRZ crop\<close>








section \<open>Properties of the vision processor\<close>

subsection \<open>Evaluation rules for concrete inputs\<close>






subsection \<open>Helper lemmas: crops, pipelines and glare\<close>





lemma gray_is_single_cong: "channels a = channels b \<Longrightarrow> gray_is_single a = gray_is_single b"
  by (simp add: gray_is_single_def)








subsection \<open>The claims about the vision processor\<close>





text \<open>
  C9. \<open>warpToID1(frame, corners)\<close> returns the empty image, and does not throw, whenever
  \<open>corners\<close> does not hold exactly four points or the frame is empty: the guard returns
  before any OpenCV call.
\<close>

theorem C9_warpToID1_guard:
  assumes "length corners \<noteq> 4 \<or> mat_empty src"
  shows "warpToID1 warp src corners = Inr Image_empty \<and> mat_empty (origin Image_empty)"
  using assms by (simp add: warpToID1_def Image_empty_def Mat_default_def mat_empty_def)

theorem C9_warpToID1_guard_witness:
  "length [(0, 0), (10, 0), (10, 10)] \<noteq> (4::nat)
   \<and> mat_empty Mat_default
   \<and> warpToID1 (\<lambda>m cs. Inl CvException)
        \<lparr>rows = 1, cols = 1, channels = 1, mat_data = [7]\<rparr> [(0, 0), (10, 0), (10, 10)]
       = Inr Image_empty
   \<and> warpToID1 (\<lambda>m cs. Inl CvException) Mat_default [(0, 0), (10, 0), (10, 10), (0, 10)]
       = Inr Image_empty"
  using C9_warpToID1_guard
      [of "[(0, 0), (10, 0), (10, 10)]" "\<lparr>rows = 1, cols = 1, channels = 1, mat_data = [7]\<rparr>"
          "\<lambda>m cs. Inl CvException"]
    C9_warpToID1_guard
      [of "[(0, 0), (10, 0), (10, 10), (0, 10)]" Mat_default "\<lambda>m cs. Inl CvException"]
  by (simp add: Mat_default_def mat_empty_def)










end
